theory Spec2Isabelle
  imports Complex_Main "HOL-Library.Word" "HOL-Library.Sublist" "HOL-Library.Multiset"
    "HOL-Library.Signed_Division"
begin

unbundle bit_operations_syntax

chapter \<open>Ball detection and spin estimation: a shallow embedding\<close>

text \<open>
  The development follows the C++ sources of the ball-detection core:
  \<^item> \<^verbatim>\<open>ball_detection/hough_detector.cpp\<close> (concentric-circle removal),
  \<^item> \<^verbatim>\<open>ball_detection/ball_detector_facade.cpp\<close> (adaptive Hough loop, candidate
    scoring and filtering),
  \<^item> \<^verbatim>\<open>ball_detection/color_filter.cpp\<close> (HSV colour mask),
  \<^item> \<^verbatim>\<open>ball_image_proc.cpp\<close> (single-class non-maximum suppression),
  \<^item> \<^verbatim>\<open>ball_detection/spin_analyzer.cpp\<close> (Gabor threshold, projection, rotation
    search).

  Conventions. Image-library primitives (Hough transform, Gabor filter bank, colour
  statistics, morphology) are inputs of the model: the functions below take their
  results as arguments. A finite C++ \<^verbatim>\<open>float\<close> or \<^verbatim>\<open>double\<close> is modelled by the rational
  number it denotes; where a result depends on the rounding of an arithmetic operation
  or of a conversion, the rounding is written out (\<open>round_to_float\<close>, \<open>round_to_double\<close>).
  A C++ \<^verbatim>\<open>int\<close> is modelled by an unbounded integer (no claim depends on overflow), and
  a \<^verbatim>\<open>uchar\<close> pixel by an 8-bit word.
\<close>

section \<open>Definitions\<close>

subsection \<open>Binary floating point\<close>

text \<open>
  Rounding of an exact value to an IEEE 754 binary format with \<open>p\<close> significant bits and
  least normal exponent \<open>emin\<close> (round to nearest, ties to even): the result is the
  multiple of the unit in the last place nearest to the argument, where the unit is
  \<open>2 ^ (e - (p - 1))\<close> for the exponent \<open>e\<close> of the argument's leading bit, and at least
  \<open>2 ^ (emin - (p - 1))\<close>. A C++ \<^verbatim>\<open>float\<close> operation is the exact operation followed by
  \<open>round_to_float\<close>, a \<^verbatim>\<open>double\<close> operation the exact operation followed by
  \<open>round_to_double\<close>; the conversions \<^verbatim>\<open>(float)x\<close> of a \<^verbatim>\<open>double\<close> or \<^verbatim>\<open>int\<close> are
  \<open>round_to_float\<close> as well. Overflow to infinity is not modelled.
\<close>

function bit_length :: "int \<Rightarrow> nat" where
  "bit_length n = (if n \<le> 0 then 0 else Suc (bit_length (n div 2)))"
  by pat_completeness auto
termination
  by (relation "measure nat") auto

declare bit_length.simps [simp del]

definition round_half_even :: "rat \<Rightarrow> int" where
  "round_half_even q =
     (let f = \<lfloor>q\<rfloor>; r = q - rat_of_int f
      in if r < 1 / 2 then f else if r > 1 / 2 then f + 1 else if even f then f else f + 1)"

definition pow2 :: "int \<Rightarrow> rat" where
  "pow2 k = (if 0 \<le> k then 2 ^ nat k else 1 / 2 ^ nat (- k))"

text \<open>The exponent of the leading bit of a positive value: \<open>2 ^ e \<le> a < 2 ^ (e + 1)\<close>.\<close>

definition binary_exponent :: "rat \<Rightarrow> int" where
  "binary_exponent a =
     (if 1 \<le> a then int (bit_length \<lfloor>a\<rfloor>) - 1
      else - int (bit_length (\<lceil>1 / a\<rceil> - 1)))"

definition round_to_binary :: "nat \<Rightarrow> int \<Rightarrow> rat \<Rightarrow> rat" where
  "round_to_binary p emin x =
     (if x = 0 then 0
      else let a = \<bar>x\<bar>;
               e = binary_exponent a;
               ulp = pow2 (max e emin - (int p - 1))
           in sgn x * rat_of_int (round_half_even (a / ulp)) * ulp)"

definition round_to_float :: "rat \<Rightarrow> rat" where
  "round_to_float x = round_to_binary 24 (- 126) x"

definition round_to_double :: "rat \<Rightarrow> rat" where
  "round_to_double x = round_to_binary 53 (- 1022) x"

subsection \<open>Circles and concentric-circle removal\<close>


text \<open>\<^verbatim>\<open>std::round\<close>: to the nearest integer, halves away from zero.\<close>

definition cround :: "rat \<Rightarrow> int" where
  "cround x = (if 0 \<le> x then \<lfloor>x + 1 / 2\<rfloor> else - \<lfloor>- x + 1 / 2\<rfloor>)"



text \<open>\<^verbatim>\<open>circles.erase(circles.begin() + k)\<close>.\<close>

definition erase_at :: "nat \<Rightarrow> 'a list \<Rightarrow> 'a list" where
  "erase_at k xs = take k xs @ drop (Suc k) xs"









subsection \<open>Single-class non-maximum suppression\<close>

text \<open>\<^verbatim>\<open>cv::Rect\<close>: top-left corner, width and height, all \<^verbatim>\<open>int\<close>.\<close>

record Rect =
  rect_x :: int
  rect_y :: int
  rect_width :: int
  rect_height :: int

text \<open>
  The IoU that \<^verbatim>\<open>BallImageProc::SingleClassNMS\<close> computes in its inner loop. The corner
  coordinates and the intersection width and height are \<^verbatim>\<open>int\<close>; the three areas are
  converted to \<^verbatim>\<open>float\<close>, and the union (a sum and a difference) and the quotient are
  \<^verbatim>\<open>float\<close> operations, each rounded. The result is 0 when the union is not positive.
\<close>

definition box_iou :: "Rect \<Rightarrow> Rect \<Rightarrow> rat" where
  "box_iou box_i box_j =
     (let x1 = max (rect_x box_i) (rect_x box_j);
          y1 = max (rect_y box_i) (rect_y box_j);
          x2 = min (rect_x box_i + rect_width box_i) (rect_x box_j + rect_width box_j);
          y2 = min (rect_y box_i + rect_height box_i) (rect_y box_j + rect_height box_j);
          intersection_width = max 0 (x2 - x1);
          intersection_height = max 0 (y2 - y1);
          intersection_area = round_to_float (of_int (intersection_width * intersection_height));
          box_i_area = round_to_float (of_int (rect_width box_i * rect_height box_i));
          box_j_area = round_to_float (of_int (rect_width box_j * rect_height box_j));
          union_area = round_to_float (round_to_float (box_i_area + box_j_area) - intersection_area)
      in if union_area > 0 then round_to_float (intersection_area / union_area) else 0)"

text \<open>
  Modelled from the spec: the IoU in exact arithmetic, ``axis-aligned intersection over
  sum-minus-intersection, with union \<open>\<le> 0\<close> yielding IoU 0''.
\<close>

definition exact_iou :: "Rect \<Rightarrow> Rect \<Rightarrow> rat" where
  "exact_iou box_i box_j =
     (let x1 = max (rect_x box_i) (rect_x box_j);
          y1 = max (rect_y box_i) (rect_y box_j);
          x2 = min (rect_x box_i + rect_width box_i) (rect_x box_j + rect_width box_j);
          y2 = min (rect_y box_i + rect_height box_i) (rect_y box_j + rect_height box_j);
          intersection_area = of_int (max 0 (x2 - x1) * max 0 (y2 - y1));
          union_area = of_int (rect_width box_i * rect_height box_i)
                         + of_int (rect_width box_j * rect_height box_j) - intersection_area
      in if union_area > 0 then intersection_area / union_area else 0)"

text \<open>The prefilter: the pairs \<open>(confidence, index)\<close> with confidence at least the threshold.\<close>

definition confidence_index_pairs :: "rat list \<Rightarrow> rat \<Rightarrow> (rat \<times> nat) list" where
  "confidence_index_pairs confidences conf_threshold =
     map (\<lambda>i. (confidences ! i, i))
       (filter (\<lambda>i. confidences ! i \<ge> conf_threshold) [0..<length confidences])"

text \<open>
  The body of the inner loop at position \<open>j\<close>, for the kept position \<open>i\<close>:
  \<^verbatim>\<open>if (suppressed[j]) continue; ... if (iou > nms_threshold) suppressed[j] = true;\<close>
\<close>

definition suppress_step ::
  "Rect list \<Rightarrow> (rat \<times> nat) list \<Rightarrow> rat \<Rightarrow> nat \<Rightarrow> nat \<Rightarrow> bool list \<Rightarrow> bool list" where
  "suppress_step boxes pairs nms_threshold i j suppressed =
     (if suppressed ! j then suppressed
      else if box_iou (boxes ! snd (pairs ! i)) (boxes ! snd (pairs ! j)) > nms_threshold
           then suppressed[j := True]
           else suppressed)"

text \<open>
  The body of the outer loop at position \<open>i\<close>: a suppressed position is skipped; otherwise
  its index is pushed and the inner loop runs over the positions \<open>i + 1, \<dots>, n - 1\<close>.
\<close>

definition nms_outer_step ::
  "Rect list \<Rightarrow> (rat \<times> nat) list \<Rightarrow> rat \<Rightarrow> nat \<Rightarrow> bool list \<times> nat list \<Rightarrow> bool list \<times> nat list" where
  "nms_outer_step boxes pairs nms_threshold i st =
     (case st of (suppressed, indices) \<Rightarrow>
        if suppressed ! i then (suppressed, indices)
        else (fold (suppress_step boxes pairs nms_threshold i) [i + 1..<length pairs] suppressed,
              indices @ [snd (pairs ! i)]))"

definition nms_greedy :: "Rect list \<Rightarrow> (rat \<times> nat) list \<Rightarrow> rat \<Rightarrow> nat list" where
  "nms_greedy boxes pairs nms_threshold =
     snd (fold (nms_outer_step boxes pairs nms_threshold) [0..<length pairs]
            (replicate (length pairs) False, []))"

text \<open>
  \<^verbatim>\<open>std::sort\<close> with the comparator \<^verbatim>\<open>a.first > b.first\<close> leaves the order of pairs with
  equal confidence unspecified, so the sort is an argument of the model. \<open>sorts_descending\<close>
  is what any \<^verbatim>\<open>std::sort\<close> guarantees for its result; \<open>stable_sort_desc\<close> is one such sort.
\<close>

definition sorts_descending :: "(rat \<times> nat) list \<Rightarrow> (rat \<times> nat) list \<Rightarrow> bool" where
  "sorts_descending pairs sorted_pairs \<longleftrightarrow>
     mset sorted_pairs = mset pairs \<and> sorted_wrt (\<lambda>a b. fst a \<ge> fst b) sorted_pairs"

definition stable_sort_desc :: "(rat \<times> nat) list \<Rightarrow> (rat \<times> nat) list" where
  "stable_sort_desc pairs = sort_key (\<lambda>p. - fst p) pairs"

definition SingleClassNMS ::
  "((rat \<times> nat) list \<Rightarrow> (rat \<times> nat) list) \<Rightarrow> Rect list \<Rightarrow> rat list \<Rightarrow> rat \<Rightarrow> rat \<Rightarrow> nat list" where
  "SingleClassNMS std_sort boxes confidences conf_threshold nms_threshold =
     (let pairs = confidence_index_pairs confidences conf_threshold
      in if pairs = [] then []
         else nms_greedy boxes (std_sort pairs) nms_threshold)"

subsection \<open>Rotation search space and candidate generation\<close>

record RotationSearchSpace =
  anglex_rotation_degrees_increment :: int
  anglex_rotation_degrees_start :: int
  anglex_rotation_degrees_end :: int
  angley_rotation_degrees_increment :: int
  angley_rotation_degrees_start :: int
  angley_rotation_degrees_end :: int
  anglez_rotation_degrees_increment :: int
  anglez_rotation_degrees_start :: int
  anglez_rotation_degrees_end :: int

text \<open>
  One dimension of the candidate index matrix in
  \<^verbatim>\<open>SpinAnalyzer::ComputeCandidateAngleImages\<close>:
  \<^verbatim>\<open>(int)std::ceil((end - start) / increment) + 1\<close>. All three operands are \<^verbatim>\<open>int\<close>, so
  the quotient is C++ integer division, which truncates towards zero (\<open>sdiv\<close>), and
  \<^verbatim>\<open>std::ceil\<close> is applied to a value that is already integral.
\<close>

definition axis_size :: "int \<Rightarrow> int \<Rightarrow> int \<Rightarrow> int" where
  "axis_size start end' increment = (end' - start) sdiv increment + 1"

text \<open>
  One of the three nested loops:
  \<^verbatim>\<open>for (deg = start; deg <= end; deg += increment)\<close>, as the list of the angles it
  visits. With a non-positive increment and \<open>start \<le> end\<close> the loop does not terminate;
  the function is then \<open>None\<close>.
\<close>

partial_function (option) axis_loop :: "int \<Rightarrow> int \<Rightarrow> int \<Rightarrow> int list option" where
  "axis_loop deg end' increment =
     (if deg \<le> end'
      then Option.bind (axis_loop (deg + increment) end' increment) (\<lambda>rest. Some (deg # rest))
      else Some [])"

declare axis_loop.simps [code]

text \<open>
  The rotations visited by the three nested loops, in order. The two inner loops start
  afresh in every iteration of the enclosing one.
\<close>

definition search_rotations :: "RotationSearchSpace \<Rightarrow> (int \<times> int \<times> int) list option" where
  "search_rotations sp =
     Option.bind (axis_loop (anglex_rotation_degrees_start sp) (anglex_rotation_degrees_end sp)
                    (anglex_rotation_degrees_increment sp)) (\<lambda>xs.
       if xs = [] then Some [] else
       Option.bind (axis_loop (angley_rotation_degrees_start sp) (angley_rotation_degrees_end sp)
                      (angley_rotation_degrees_increment sp)) (\<lambda>ys.
         if ys = [] then Some [] else
         Option.bind (axis_loop (anglez_rotation_degrees_start sp) (anglez_rotation_degrees_end sp)
                        (anglez_rotation_degrees_increment sp)) (\<lambda>zs.
           Some (concat (map (\<lambda>x. concat (map (\<lambda>y. map (\<lambda>z. (x, y, z)) zs) ys)) xs)))))"

text \<open>
  \<^verbatim>\<open>RotationCandidate\<close>. The projected image \<^verbatim>\<open>img\<close> enters the search only through
  \<^verbatim>\<open>CompareRotationImage\<close>, whose two counts are stored in \<^verbatim>\<open>pixels_matching\<close> and
  \<^verbatim>\<open>pixels_examined\<close>; the record keeps the counts.
\<close>

record RotationCandidate =
  index :: int
  x_rotation_degrees :: int
  y_rotation_degrees :: int
  z_rotation_degrees :: int
  pixels_matching :: int
  pixels_examined :: int

text \<open>
  \<^verbatim>\<open>ComputeCandidateAngleImages\<close>: the size vector of the candidate index matrix and the
  candidates in the order of \<^verbatim>\<open>vectorIndex\<close>. An increment of 0 makes the size
  computation divide by zero; the call then does not return.
\<close>

definition ComputeCandidateAngleImages ::
  "RotationSearchSpace \<Rightarrow> ((int \<times> int \<times> int) \<times> RotationCandidate list) option" where
  "ComputeCandidateAngleImages sp =
     (if anglex_rotation_degrees_increment sp = 0 \<or> angley_rotation_degrees_increment sp = 0 \<or>
         anglez_rotation_degrees_increment sp = 0 then None
      else
        let xSize = axis_size (anglex_rotation_degrees_start sp) (anglex_rotation_degrees_end sp)
                      (anglex_rotation_degrees_increment sp);
            ySize = axis_size (angley_rotation_degrees_start sp) (angley_rotation_degrees_end sp)
                      (angley_rotation_degrees_increment sp);
            zSize = axis_size (anglez_rotation_degrees_start sp) (anglez_rotation_degrees_end sp)
                      (anglez_rotation_degrees_increment sp)
        in Option.bind (search_rotations sp) (\<lambda>rots.
             Some ((xSize, ySize, zSize),
                   map (\<lambda>(vectorIndex, (x, y, z)).
                          \<lparr>index = int vectorIndex, x_rotation_degrees = x,
                           y_rotation_degrees = y, z_rotation_degrees = z,
                           pixels_matching = 0, pixels_examined = 0\<rparr>)
                       (enumerate 0 rots))))"

subsection \<open>Spin images: Gabor threshold, masking, projection, comparison\<close>

text \<open>
  A single-channel 8-bit image is the list of its pixels; every image of one ball has
  the same dimensions, so a position is an index into the list.
\<close>

type_synonym gray_image = "8 word list"

text \<open>The sentinel "do not compare this pixel".\<close>

definition kPixelIgnoreValue :: "8 word" where
  "kPixelIgnoreValue = 128"

text \<open>
  \<^verbatim>\<open>cv::threshold(src, dst, thresh, maxval, cv::THRESH_BINARY)\<close> on an 8-bit image, by its
  documented contract: \<open>maxval\<close> where the pixel exceeds the threshold, 0 elsewhere.
\<close>

definition threshold_binary :: "gray_image \<Rightarrow> int \<Rightarrow> 8 word \<Rightarrow> gray_image" where
  "threshold_binary src thresh maxval = map (\<lambda>p. if uint p > thresh then maxval else 0) src"

text \<open>
  \<^verbatim>\<open>SpinAnalyzer::ApplyTestGaborFilter\<close> from the point where the filter bank has been
  applied: \<open>accumGray\<close> is the per-pixel maximum response quantised to 8 bits. The
  result is the thresholded image and \<^verbatim>\<open>white_percent\<close>.
\<close>

definition ApplyTestGaborFilter :: "gray_image \<Rightarrow> rat \<Rightarrow> gray_image \<times> int" where
  "ApplyTestGaborFilter accumGray binary_threshold =
     (let edgeThresholdLow = cround (binary_threshold * 10);
          edgeThresholdHigh = 255;
          dimpleEdges = threshold_binary accumGray edgeThresholdLow edgeThresholdHigh;
          white_percent = cround (rat_of_nat (length (filter (\<lambda>p. p \<noteq> 0) dimpleEdges)) * 100
                                    / rat_of_nat (length dimpleEdges))
      in (dimpleEdges, white_percent))"

text \<open>
  The final loop of \<^verbatim>\<open>SpinAnalyzer::RemoveReflections\<close>: \<open>morph\<close> is the closed and dilated
  mask of bright pixels; where it is 255 the filtered image receives the sentinel.
\<close>

definition RemoveReflections :: "gray_image \<Rightarrow> gray_image \<Rightarrow> gray_image" where
  "RemoveReflections morph filtered_image =
     map (\<lambda>(p1, p). if p1 = 255 then kPixelIgnoreValue else p) (zip morph filtered_image)"

text \<open>
  \<^verbatim>\<open>SpinAnalyzer::MaskAreaOutsideBall\<close>. \<open>disc\<close> tells for each position whether
  \<^verbatim>\<open>cv::circle\<close> fills it. The image is ANDed with a mask that is 255 on the disc and 0
  elsewhere, then XORed with a mask that is 0 on the disc and \<open>maskValue\<close> elsewhere.
\<close>

definition MaskAreaOutsideBall :: "gray_image \<Rightarrow> bool list \<Rightarrow> 8 word \<Rightarrow> gray_image" where
  "MaskAreaOutsideBall ball_image disc maskValue =
     map (\<lambda>(inside, p).
            (p AND (if inside then 255 else 0)) XOR (if inside then 0 else maskValue))
         (zip disc ball_image)"

text \<open>
  What the floating-point geometry of \<^verbatim>\<open>projectionOp\<close> yields for one source position:
  the truncated depth of the unrotated point, whether that point is invalid
  (\<^verbatim>\<open>ball3dZOfUnrotatedPoint <= 0.0001\<close>), and, when the rotated point lies in the image
  with positive depth, its rounded destination and truncated depth.
\<close>

record projection_geometry =
  unrotated_z :: int
  prerotatedPointNotValid :: bool
  rotated_target :: "(nat \<times> int) option"

text \<open>A \<^verbatim>\<open>CV_32SC2\<close> image: depth and pixel value at each position.\<close>

type_synonym projected_image = "(int \<times> int) list"

text \<open>\<^verbatim>\<open>projectionOp::operator()\<close> for the source position \<open>k\<close>.\<close>

definition projectionOp ::
  "(nat \<Rightarrow> projection_geometry) \<Rightarrow> gray_image \<Rightarrow> nat \<Rightarrow> projected_image \<Rightarrow> projected_image" where
  "projectionOp geom image_gray k projectedImg =
     (let pixelValue = image_gray ! k;
          img1 = (if prerotatedPointNotValid (geom k)
                  then projectedImg[k := (unrotated_z (geom k), uint kPixelIgnoreValue)]
                  else projectedImg)
      in case rotated_target (geom k) of
           None \<Rightarrow> img1
         | Some (dest, z) \<Rightarrow>
             img1[dest := (z, if prerotatedPointNotValid (geom k) then uint kPixelIgnoreValue
                              else uint pixelValue)])"

text \<open>
  \<^verbatim>\<open>SpinAnalyzer::Project2dImageTo3dBall\<close>. The destination starts as
  \<open>(0, kPixelIgnoreValue)\<close> everywhere. \<^verbatim>\<open>forEach\<close> runs the operator on the positions in
  an unspecified order, which is the argument \<open>order\<close>; \<open>visits_image\<close> says that the
  order visits every position of the image exactly once.
\<close>

definition Project2dImageTo3dBall ::
  "(nat \<Rightarrow> projection_geometry) \<Rightarrow> nat list \<Rightarrow> gray_image \<Rightarrow> projected_image" where
  "Project2dImageTo3dBall geom order image_gray =
     fold (projectionOp geom image_gray) order
       (replicate (length image_gray) (0, uint kPixelIgnoreValue))"

definition visits_image :: "nat list \<Rightarrow> gray_image \<Rightarrow> bool" where
  "visits_image order image_gray \<longleftrightarrow> sort order = [0..<length image_gray]"

text \<open>\<^verbatim>\<open>SpinAnalyzer::Unproject3dBallTo2dImage\<close>: the value channel, narrowed to \<^verbatim>\<open>uchar\<close>.\<close>

definition Unproject3dBallTo2dImage :: "projected_image \<Rightarrow> gray_image" where
  "Unproject3dBallTo2dImage src3D = map (\<lambda>(maxValueZ, pixelValue). word_of_int pixelValue) src3D"

definition GetRotatedImage ::
  "(nat \<Rightarrow> projection_geometry) \<Rightarrow> nat list \<Rightarrow> gray_image \<Rightarrow> gray_image" where
  "GetRotatedImage geom order gray_2D_input_image =
     Unproject3dBallTo2dImage (Project2dImageTo3dBall geom order gray_2D_input_image)"

text \<open>
  The dimple image of ball 1 as \<^verbatim>\<open>GetBallRotation\<close> prepares it before the search: Gabor
  threshold, reflection removal, masking outside \<open>0.92 r\<close> with the sentinel, and the
  perspective de-rotation.
\<close>

definition prepared_dimple_image ::
  "gray_image \<Rightarrow> rat \<Rightarrow> gray_image \<Rightarrow> bool list \<Rightarrow> (nat \<Rightarrow> projection_geometry) \<Rightarrow> nat list
     \<Rightarrow> gray_image" where
  "prepared_dimple_image accumGray binary_threshold morph disc geom order =
     (let dimpleEdges = fst (ApplyTestGaborFilter accumGray binary_threshold);
          dimpleEdges1 = RemoveReflections morph dimpleEdges;
          dimpleEdges2 = MaskAreaOutsideBall dimpleEdges1 disc kPixelIgnoreValue
      in GetRotatedImage geom order dimpleEdges2)"

text \<open>
  \<^verbatim>\<open>SpinAnalyzer::CompareRotationImage\<close>: \<open>img1\<close> is the 8-bit target, \<open>img2\<close> the
  projected candidate, whose value channel is narrowed to \<^verbatim>\<open>uchar\<close>. The result is
  \<open>(score, totalPixelsExamined)\<close>.
\<close>

definition compare_step :: "8 word \<times> (int \<times> int) \<Rightarrow> int \<times> int \<Rightarrow> int \<times> int" where
  "compare_step pp acc =
     (case (pp, acc) of ((p1, (z, v)), (score, totalPixelsExamined)) \<Rightarrow>
        let p2 = (word_of_int v :: 8 word) in
        if p1 \<noteq> kPixelIgnoreValue \<and> p2 \<noteq> kPixelIgnoreValue
        then (if p1 = p2 then score + 1 else score, totalPixelsExamined + 1)
        else (score, totalPixelsExamined))"

definition compare_pairs :: "(8 word \<times> (int \<times> int)) list \<Rightarrow> int \<times> int" where
  "compare_pairs pairs = fold compare_step pairs (0, 0)"

definition CompareRotationImage :: "gray_image \<Rightarrow> projected_image \<Rightarrow> int \<times> int" where
  "CompareRotationImage img1 img2 = compare_pairs (zip img1 img2)"

subsection \<open>HSV colour mask\<close>

text \<open>
  \<^verbatim>\<open>GsColorTriplet\<close>: three \<^verbatim>\<open>double\<close> channels. A pixel of an 8-bit HSV image: hue,
  saturation, value.
\<close>

type_synonym GsColorTriplet = "rat \<times> rat \<times> rat"

type_synonym hsv_pixel = "8 word \<times> 8 word \<times> 8 word"

text \<open>The file-level constant of \<^verbatim>\<open>color_filter.cpp\<close>.\<close>

definition kColorMaskWideningAmount :: rat where
  "kColorMaskWideningAmount = 35"

text \<open>
  Modelled from the spec: \<^verbatim>\<open>CvUtils::kOpenCvHueMax\<close> (declared in \<^verbatim>\<open>utils/cv_utils.h\<close>, which is
  not part of the sources at hand). The spec puts the hue wrap at 180, and the same function
  subtracts the literal \<^verbatim>\<open>180.f\<close> on the wrapping branch.
\<close>

definition kOpenCvHueMax :: rat where
  "kOpenCvHueMax = 180"

text \<open>The C++ conversion \<^verbatim>\<open>(int)x\<close> of a floating-point value: truncation towards zero.\<close>

definition trunc_int :: "rat \<Rightarrow> int" where
  "trunc_int x = (if 0 \<le> x then \<lfloor>x\<rfloor> else \<lceil>x\<rceil>)"

text \<open>
  \<^verbatim>\<open>cv::inRange\<close> on a three-channel 8-bit image, by its documented contract: 255 where
  every channel lies between the bounds (inclusive), 0 elsewhere.
\<close>

definition in_bounds :: "hsv_pixel \<Rightarrow> GsColorTriplet \<Rightarrow> GsColorTriplet \<Rightarrow> bool" where
  "in_bounds px lowerb upperb =
     (case (px, lowerb, upperb) of ((h, s, v), (l0, l1, l2), (u0, u1, u2)) \<Rightarrow>
        l0 \<le> rat_of_int (uint h) \<and> rat_of_int (uint h) \<le> u0 \<and>
        l1 \<le> rat_of_int (uint s) \<and> rat_of_int (uint s) \<le> u1 \<and>
        l2 \<le> rat_of_int (uint v) \<and> rat_of_int (uint v) \<le> u2)"

definition inRange :: "hsv_pixel list \<Rightarrow> GsColorTriplet \<Rightarrow> GsColorTriplet \<Rightarrow> gray_image" where
  "inRange src lowerb upperb = map (\<lambda>px. if in_bounds px lowerb upperb then 255 else 0) src"

text \<open>\<^verbatim>\<open>cv::bitwise_or\<close> of two masks of the same size.\<close>

definition bitwise_or :: "gray_image \<Rightarrow> gray_image \<Rightarrow> gray_image" where
  "bitwise_or src1 src2 = map (\<lambda>(a, b). a OR b) (zip src1 src2)"

text \<open>
  \<^verbatim>\<open>ColorFilter::GetColorMaskImage\<close>. The bounds are widened by
  \<^verbatim>\<open>kColorMaskWideningAmount\<close> in all three channels (in \<^verbatim>\<open>double\<close>); the argument
  \<^verbatim>\<open>wideningAmount\<close> is not read anywhere in the body. When the widened hue range stays
  within \<open>[0, 180]\<close> the bounds go to \<^verbatim>\<open>cv::inRange\<close> as they are; otherwise two ranges
  are built as \<^verbatim>\<open>cv::Vec3f\<close>, every component converted to \<^verbatim>\<open>float\<close> and the shifted hue
  bounds computed in \<^verbatim>\<open>float\<close>, and the two masks are combined.
\<close>

definition GetColorMaskImage ::
  "hsv_pixel list \<Rightarrow> GsColorTriplet \<Rightarrow> GsColorTriplet \<Rightarrow> rat \<Rightarrow> gray_image" where
  "GetColorMaskImage hsvImage input_lowerHsv input_upperHsv wideningAmount =
     (case (input_lowerHsv, input_upperHsv) of ((il0, il1, il2), (iu0, iu1, iu2)) \<Rightarrow>
        let l0 = round_to_double (il0 - kColorMaskWideningAmount);
            l1 = round_to_double (il1 - kColorMaskWideningAmount);
            l2 = round_to_double (il2 - kColorMaskWideningAmount);
            u0 = round_to_double (iu0 + kColorMaskWideningAmount);
            u1 = rat_of_int
                   (min (trunc_int (round_to_double (iu1 + kColorMaskWideningAmount))) 255);
            u2 = rat_of_int
                   (min (trunc_int (round_to_double (iu2 + kColorMaskWideningAmount))) 255)
        in if l0 \<ge> 0 \<and> u0 \<le> round_to_float kOpenCvHueMax
           then inRange hsvImage (l0, l1, l2) (u0, u1, u2)
           else
             let (leftMostLowerHsv, leftMostUpperHsv, rightMostLowerHsv, rightMostUpperHsv) =
                   (if l0 < 0
                    then ((0, round_to_float l1, round_to_float l2),
                          (round_to_float u0, round_to_float u1, round_to_float u2),
                          (round_to_float (round_to_float kOpenCvHueMax + round_to_float l0),
                           round_to_float l1, round_to_float l2),
                          (round_to_float kOpenCvHueMax, round_to_float u1, round_to_float u2))
                    else ((0, round_to_float l1, round_to_float l2),
                          (round_to_float (round_to_float u0 - 180),
                           round_to_float u1, round_to_float u2),
                          (round_to_float l0, round_to_float l1, round_to_float l2),
                          (round_to_float kOpenCvHueMax, round_to_float u1, round_to_float u2)));
                 firstColorMaskImage = inRange hsvImage leftMostLowerHsv leftMostUpperHsv;
                 secondColorMaskImage = inRange hsvImage rightMostLowerHsv rightMostUpperHsv
             in bitwise_or firstColorMaskImage secondColorMaskImage)"

section \<open>Auxiliary lemmas\<close>

subsection \<open>Concentric-circle removal: invariants\<close>




lemma set_erase_at_subset: "set (erase_at k xs) \<subseteq> set xs"
  by (auto simp: erase_at_def dest: in_set_takeD in_set_dropD)











subsection \<open>Non-maximum suppression: loop invariants\<close>

lemma box_iou_sym: "box_iou a b = box_iou b a"
  by (simp add: box_iou_def Let_def max.commute min.commute add.commute)

text \<open>\<open>overlaps\<close>: the test of the inner loop for the sorted positions \<open>i\<close> and \<open>j\<close>.\<close>

definition overlaps :: "Rect list \<Rightarrow> (rat \<times> nat) list \<Rightarrow> rat \<Rightarrow> nat \<Rightarrow> nat \<Rightarrow> bool" where
  "overlaps boxes pairs thr i j \<longleftrightarrow>
     box_iou (boxes ! snd (pairs ! i)) (boxes ! snd (pairs ! j)) > thr"

lemma suppress_step_length:
  "length (suppress_step boxes pairs thr i j flags) = length flags"
  by (simp add: suppress_step_def)

lemma suppress_step_nth:
  assumes "j < length flags" "k < length flags"
  shows "suppress_step boxes pairs thr i j flags ! k \<longleftrightarrow>
           flags ! k \<or> (k = j \<and> overlaps boxes pairs thr i j)"
  using assms by (auto simp: suppress_step_def overlaps_def nth_list_update)

lemma suppress_fold:
  assumes "m \<le> length flags"
  shows "length (fold (suppress_step boxes pairs thr i) [i + 1..<m] flags) = length flags \<and>
         (\<forall>k<length flags. fold (suppress_step boxes pairs thr i) [i + 1..<m] flags ! k \<longleftrightarrow>
             flags ! k \<or> (i < k \<and> k < m \<and> overlaps boxes pairs thr i k))"
  using assms
proof (induction m)
  case 0
  then show ?case by simp
next
  case (Suc m)
  let ?f = "suppress_step boxes pairs thr i"
  let ?s = "fold ?f [i + 1..<m] flags"
  have IH: "length ?s = length flags"
    "\<forall>k<length flags. ?s ! k \<longleftrightarrow> flags ! k \<or> (i < k \<and> k < m \<and> overlaps boxes pairs thr i k)"
    using Suc by simp_all
  show ?case
  proof (cases "i + 1 \<le> m")
    case False
    then have "[i + 1..<Suc m] = []" "[i + 1..<m] = []" by simp_all
    then show ?thesis by auto
  next
    case True
    then have upt: "[i + 1..<Suc m] = [i + 1..<m] @ [m]" by simp
    have ml: "m < length ?s" using Suc.prems IH(1) by simp
    have fold_eq: "fold ?f [i + 1..<Suc m] flags = ?f m ?s"
      by (simp only: upt fold_append fold_simps comp_apply id_apply)
    have len: "length (?f m ?s) = length flags"
      by (simp only: suppress_step_length IH(1))
    have nth: "\<forall>k<length flags. ?f m ?s ! k \<longleftrightarrow>
        flags ! k \<or> (i < k \<and> k < Suc m \<and> overlaps boxes pairs thr i k)"
    proof (intro allI impI)
      fix k assume k: "k < length flags"
      then have k': "k < length ?s" using IH(1) by simp
      have "?f m ?s ! k \<longleftrightarrow> ?s ! k \<or> (k = m \<and> overlaps boxes pairs thr i m)"
        by (rule suppress_step_nth[OF ml k'])
      also have "\<dots> \<longleftrightarrow> flags ! k \<or> (i < k \<and> k < m \<and> overlaps boxes pairs thr i k)
                      \<or> (k = m \<and> overlaps boxes pairs thr i m)"
        using IH(2) k by simp
      also have "\<dots> \<longleftrightarrow> flags ! k \<or> (i < k \<and> k < Suc m \<and> overlaps boxes pairs thr i k)"
        using True by (auto simp: less_Suc_eq)
      finally show "?f m ?s ! k \<longleftrightarrow>
          flags ! k \<or> (i < k \<and> k < Suc m \<and> overlaps boxes pairs thr i k)" .
    qed
    show ?thesis unfolding fold_eq using len nth by blast
  qed
qed

text \<open>
  The state of the outer loop after the positions below \<open>m\<close>: the flags have the length
  of the pair list, the indices pushed so far are those of the unsuppressed positions
  below \<open>m\<close>, in order, and a position is flagged exactly when an unsuppressed earlier
  position below \<open>m\<close> overlaps it.
\<close>

definition nms_state :: "Rect list \<Rightarrow> (rat \<times> nat) list \<Rightarrow> rat \<Rightarrow> nat \<Rightarrow> bool list \<times> nat list" where
  "nms_state boxes pairs thr m =
     fold (nms_outer_step boxes pairs thr) [0..<m] (replicate (length pairs) False, [])"

definition nms_inv :: "Rect list \<Rightarrow> (rat \<times> nat) list \<Rightarrow> rat \<Rightarrow> nat \<Rightarrow> bool list \<times> nat list \<Rightarrow> bool" where
  "nms_inv boxes pairs thr m st \<longleftrightarrow>
     length (fst st) = length pairs \<and>
     snd st = map (\<lambda>k. snd (pairs ! k)) (filter (\<lambda>k. \<not> fst st ! k) [0..<m]) \<and>
     (\<forall>j<length pairs. fst st ! j \<longleftrightarrow>
        (\<exists>k<m. k < j \<and> \<not> fst st ! k \<and> overlaps boxes pairs thr k j))"

lemma nms_state_Suc:
  "nms_state boxes pairs thr (Suc m) =
     nms_outer_step boxes pairs thr m (nms_state boxes pairs thr m)"
  by (simp add: nms_state_def)

lemma nms_inv_step:
  assumes inv: "nms_inv boxes pairs thr m st" and m: "m < length pairs"
  shows "nms_inv boxes pairs thr (Suc m) (nms_outer_step boxes pairs thr m st)"
proof -
  obtain flags out where st: "st = (flags, out)" by (cases st)
  have len: "length flags = length pairs"
    and out: "out = map (\<lambda>k. snd (pairs ! k)) (filter (\<lambda>k. \<not> flags ! k) [0..<m])"
    and fl: "\<forall>j<length pairs. flags ! j \<longleftrightarrow> (\<exists>k<m. k < j \<and> \<not> flags ! k \<and> overlaps boxes pairs thr k j)"
    using inv by (simp_all add: nms_inv_def st)
  show ?thesis
  proof (cases "flags ! m")
    case True
    have step: "nms_outer_step boxes pairs thr m st = (flags, out)"
      using True by (simp add: nms_outer_step_def st)
    have o: "out = map (\<lambda>k. snd (pairs ! k)) (filter (\<lambda>k. \<not> flags ! k) [0..<Suc m])"
      using out True by simp
    have f: "\<forall>j<length pairs. flags ! j \<longleftrightarrow>
        (\<exists>k<Suc m. k < j \<and> \<not> flags ! k \<and> overlaps boxes pairs thr k j)"
      using fl True by (metis less_Suc_eq)
    show ?thesis unfolding step nms_inv_def using len o f by simp
  next
    case False
    let ?flags' = "fold (suppress_step boxes pairs thr m) [m + 1..<length pairs] flags"
    have step: "nms_outer_step boxes pairs thr m st = (?flags', out @ [snd (pairs ! m)])"
      using False by (simp add: nms_outer_step_def st)
    have "length pairs \<le> length flags" using len by simp
    from suppress_fold[OF this, of boxes pairs thr m]
    have len': "length ?flags' = length pairs"
      and nth': "\<forall>k<length pairs. ?flags' ! k \<longleftrightarrow>
          flags ! k \<or> (m < k \<and> k < length pairs \<and> overlaps boxes pairs thr m k)"
      using len by simp_all
    have same: "\<And>k. k \<le> m \<Longrightarrow> ?flags' ! k = flags ! k"
      using nth' m by auto
    have flt: "filter (\<lambda>k. \<not> ?flags' ! k) [0..<m] = filter (\<lambda>k. \<not> flags ! k) [0..<m]"
    proof (rule filter_cong[OF refl])
      fix x assume "x \<in> set [0..<m]"
      then have "x \<le> m" by simp
      from same[OF this] show "(\<not> ?flags' ! x) = (\<not> flags ! x)" by (rule arg_cong)
    qed
    have o: "out @ [snd (pairs ! m)] =
        map (\<lambda>k. snd (pairs ! k)) (filter (\<lambda>k. \<not> ?flags' ! k) [0..<Suc m])"
      using out flt same[of m] False by simp
    have f: "\<forall>j<length pairs. ?flags' ! j \<longleftrightarrow>
        (\<exists>k<Suc m. k < j \<and> \<not> ?flags' ! k \<and> overlaps boxes pairs thr k j)"
    proof (intro allI impI)
      fix j assume j: "j < length pairs"
      have "?flags' ! j \<longleftrightarrow> flags ! j \<or> (m < j \<and> overlaps boxes pairs thr m j)"
        using nth' j by simp
      also have "\<dots> \<longleftrightarrow> (\<exists>k<m. k < j \<and> \<not> flags ! k \<and> overlaps boxes pairs thr k j)
                       \<or> (m < j \<and> \<not> flags ! m \<and> overlaps boxes pairs thr m j)"
        using fl j False by simp
      also have "\<dots> \<longleftrightarrow> (\<exists>k<Suc m. k < j \<and> \<not> flags ! k \<and> overlaps boxes pairs thr k j)"
        by (metis less_Suc_eq)
      also have "\<dots> \<longleftrightarrow> (\<exists>k<Suc m. k < j \<and> \<not> ?flags' ! k \<and> overlaps boxes pairs thr k j)"
        using same by (metis less_Suc_eq_le)
      finally show "?flags' ! j \<longleftrightarrow>
          (\<exists>k<Suc m. k < j \<and> \<not> ?flags' ! k \<and> overlaps boxes pairs thr k j)" .
    qed
    show ?thesis unfolding step nms_inv_def using len' o f by simp
  qed
qed

lemma nms_inv_state:
  "m \<le> length pairs \<Longrightarrow> nms_inv boxes pairs thr m (nms_state boxes pairs thr m)"
proof (induction m)
  case 0
  show ?case by (simp add: nms_inv_def nms_state_def)
next
  case (Suc m)
  then have "nms_inv boxes pairs thr m (nms_state boxes pairs thr m)" "m < length pairs"
    by simp_all
  then show ?case unfolding nms_state_Suc by (rule nms_inv_step)
qed

text \<open>What the greedy loop returns, in terms of the final flags.\<close>

lemma nms_greedy_final:
  obtains flags where "length flags = length pairs"
    and "nms_greedy boxes pairs thr =
           map (\<lambda>k. snd (pairs ! k)) (filter (\<lambda>k. \<not> flags ! k) [0..<length pairs])"
    and "\<forall>j<length pairs. flags ! j \<longleftrightarrow>
           (\<exists>k<j. \<not> flags ! k \<and> overlaps boxes pairs thr k j)"
proof -
  let ?st = "nms_state boxes pairs thr (length pairs)"
  have inv: "nms_inv boxes pairs thr (length pairs) ?st"
    by (rule nms_inv_state) simp
  have a: "length (fst ?st) = length pairs" using inv by (simp add: nms_inv_def)
  have b: "nms_greedy boxes pairs thr =
      map (\<lambda>k. snd (pairs ! k)) (filter (\<lambda>k. \<not> fst ?st ! k) [0..<length pairs])"
    using inv by (simp add: nms_inv_def nms_greedy_def nms_state_def)
  have c: "\<forall>j<length pairs. fst ?st ! j \<longleftrightarrow>
      (\<exists>k<j. \<not> fst ?st ! k \<and> overlaps boxes pairs thr k j)"
  proof (intro allI impI)
    fix j assume j: "j < length pairs"
    have "fst ?st ! j \<longleftrightarrow>
        (\<exists>k<length pairs. k < j \<and> \<not> fst ?st ! k \<and> overlaps boxes pairs thr k j)"
      using inv j by (simp add: nms_inv_def)
    also have "\<dots> \<longleftrightarrow> (\<exists>k<j. \<not> fst ?st ! k \<and> overlaps boxes pairs thr k j)"
      using j by (metis less_trans)
    finally show "fst ?st ! j \<longleftrightarrow> (\<exists>k<j. \<not> fst ?st ! k \<and> overlaps boxes pairs thr k j)" .
  qed
  show thesis using that[OF a b c] .
qed

subsection \<open>Rotation search space: the loops terminate for positive increments\<close>

lemma axis_loop_length:
  assumes "0 < increment"
  shows "\<exists>angles. axis_loop deg end' increment = Some angles \<and>
           int (length angles) = max 0 ((end' - deg) div increment + 1)"
proof (induction "nat (end' - deg + 1)" arbitrary: deg rule: less_induct)
  case less
  show ?case
  proof (cases "deg \<le> end'")
    case False
    then have "(end' - deg) div increment < 0"
      using assms by (simp add: div_neg_pos_less0)
    then have "max 0 ((end' - deg) div increment + 1) = 0" by simp
    moreover have "axis_loop deg end' increment = Some []"
      using False by (subst axis_loop.simps) simp
    ultimately show ?thesis by simp
  next
    case True
    have "nat (end' - (deg + increment) + 1) < nat (end' - deg + 1)"
      using True assms by simp
    from less[OF this] obtain rest where
      rest: "axis_loop (deg + increment) end' increment = Some rest"
        "int (length rest) = max 0 ((end' - (deg + increment)) div increment + 1)"
      by blast
    have q: "(end' - (deg + increment)) div increment + 1 = (end' - deg) div increment"
    proof -
      have "end' - deg = (end' - (deg + increment)) + 1 * increment" by simp
      then have "(end' - deg) div increment = (end' - (deg + increment)) div increment + 1"
        using assms by (metis div_mult_self1 less_irrefl add.commute)
      then show ?thesis by simp
    qed
    have nonneg: "0 \<le> (end' - deg) div increment"
      using True assms by (simp add: pos_imp_zdiv_nonneg_iff)
    have "axis_loop deg end' increment = Some (deg # rest)"
      using True rest(1) by (subst axis_loop.simps) simp
    moreover have "int (length (deg # rest)) = max 0 ((end' - deg) div increment + 1)"
      using rest(2) q nonneg by simp
    ultimately show ?thesis by blast
  qed
qed

lemma axis_size_floor:
  assumes "0 < increment" "start \<le> end'"
  shows "axis_size start end' increment = (end' - start) div increment + 1"
  using assms by (simp add: axis_size_def signed_divide_int_def sgn_if)

subsection \<open>Spin images: which pixel values each stage can produce\<close>

lemma threshold_binary_values: "set (threshold_binary src thresh maxval) \<subseteq> {0, maxval}"
  by (auto simp: threshold_binary_def)

lemma ApplyTestGaborFilter_values: "set (fst (ApplyTestGaborFilter accumGray t)) \<subseteq> {0, 255}"
  using threshold_binary_values[of accumGray "cround (t * 10)" 255]
  by (simp add: ApplyTestGaborFilter_def Let_def)

lemma RemoveReflections_values:
  "set (RemoveReflections morph img) \<subseteq> insert kPixelIgnoreValue (set img)"
proof
  fix p assume "p \<in> set (RemoveReflections morph img)"
  then obtain p1 q where pq: "(p1, q) \<in> set (zip morph img)"
    and p: "p = (if p1 = 255 then kPixelIgnoreValue else q)"
    by (auto simp: RemoveReflections_def)
  from pq have "q \<in> set img" by (rule set_zip_rightD)
  then show "p \<in> insert kPixelIgnoreValue (set img)" using p by simp
qed

lemma and_255: "(p :: 8 word) AND 255 = p"
proof -
  have "(255 :: 8 word) = - 1" by simp
  then show ?thesis by (simp only: and.right_neutral)
qed

lemma MaskAreaOutsideBall_values:
  "set (MaskAreaOutsideBall img disc maskValue) \<subseteq> insert maskValue (set img)"
proof
  fix p assume "p \<in> set (MaskAreaOutsideBall img disc maskValue)"
  then obtain inside q where pq: "(inside, q) \<in> set (zip disc img)"
    and p: "p = (q AND (if inside then 255 else 0)) XOR (if inside then 0 else maskValue)"
    by (auto simp: MaskAreaOutsideBall_def)
  from pq have "q \<in> set img" by (rule set_zip_rightD)
  then show "p \<in> insert maskValue (set img)" using p by (simp add: and_255)
qed

text \<open>The value channel after projection: the sentinel or a value of the source image.\<close>

definition values_within :: "int set \<Rightarrow> projected_image \<Rightarrow> bool" where
  "values_within V img \<longleftrightarrow> snd ` set img \<subseteq> V"

lemma values_within_update:
  "values_within V img \<Longrightarrow> v \<in> V \<Longrightarrow> values_within V (img[k := (z, v)])"
proof -
  assume a: "values_within V img" and v: "v \<in> V"
  have "set (img[k := (z, v)]) \<subseteq> insert (z, v) (set img)"
    by (rule set_update_subset_insert)
  then have "snd ` set (img[k := (z, v)]) \<subseteq> insert v (snd ` set img)" by auto
  then show ?thesis using a v unfolding values_within_def by blast
qed

lemma projectionOp_values:
  assumes "values_within V img" "uint kPixelIgnoreValue \<in> V" "uint (image_gray ! k) \<in> V"
  shows "values_within V (projectionOp geom image_gray k img)"
proof -
  let ?img1 = "if prerotatedPointNotValid (geom k)
               then img[k := (unrotated_z (geom k), uint kPixelIgnoreValue)] else img"
  have one: "values_within V ?img1"
    using assms(1,2) by (simp add: values_within_update)
  show ?thesis
  proof (cases "rotated_target (geom k)")
    case None
    then show ?thesis using one by (simp add: projectionOp_def Let_def)
  next
    case (Some t)
    obtain dest z where t: "t = (dest, z)" by (cases t)
    have "(if prerotatedPointNotValid (geom k) then uint kPixelIgnoreValue
           else uint (image_gray ! k)) \<in> V"
      using assms(2,3) by simp
    then have "values_within V (?img1[dest := (z, if prerotatedPointNotValid (geom k)
        then uint kPixelIgnoreValue else uint (image_gray ! k))])"
      by (rule values_within_update[OF one])
    then show ?thesis using Some t by (simp add: projectionOp_def Let_def)
  qed
qed

lemma projection_fold_values:
  assumes "values_within V img" "uint kPixelIgnoreValue \<in> V"
    and "\<forall>k\<in>set order. uint (image_gray ! k) \<in> V"
  shows "values_within V (fold (projectionOp geom image_gray) order img)"
  using assms
proof (induction order arbitrary: img)
  case Nil
  then show ?case by simp
next
  case (Cons k order)
  have "values_within V (projectionOp geom image_gray k img)"
    using Cons.prems by (intro projectionOp_values) simp_all
  then show ?case using Cons.IH Cons.prems by simp
qed

lemma visits_image_set: "visits_image order image_gray \<Longrightarrow> set order = {..<length image_gray}"
proof -
  assume "visits_image order image_gray"
  then have "set (sort order) = set [0..<length image_gray]"
    unfolding visits_image_def by simp
  then show ?thesis by (simp add: atLeast0LessThan)
qed

lemma Project2dImageTo3dBall_values:
  assumes "visits_image order image_gray"
  shows "snd ` set (Project2dImageTo3dBall geom order image_gray)
           \<subseteq> insert (uint kPixelIgnoreValue) (uint ` set image_gray)"
proof -
  let ?V = "insert (uint kPixelIgnoreValue) (uint ` set image_gray)"
  have init: "values_within ?V (replicate (length image_gray) (0, uint kPixelIgnoreValue))"
    by (auto simp: values_within_def)
  have "\<forall>k\<in>set order. uint (image_gray ! k) \<in> ?V"
    using visits_image_set[OF assms] by simp
  with init have "values_within ?V
      (fold (projectionOp geom image_gray) order
         (replicate (length image_gray) (0, uint kPixelIgnoreValue)))"
    by (intro projection_fold_values) simp_all
  then show ?thesis by (simp add: values_within_def Project2dImageTo3dBall_def)
qed

lemma GetRotatedImage_values:
  assumes "visits_image order image_gray"
  shows "set (GetRotatedImage geom order image_gray) \<subseteq> insert kPixelIgnoreValue (set image_gray)"
proof
  fix p assume "p \<in> set (GetRotatedImage geom order image_gray)"
  then obtain z v where zv: "(z, v) \<in> set (Project2dImageTo3dBall geom order image_gray)"
    and p: "p = word_of_int v"
    by (auto simp: GetRotatedImage_def Unproject3dBallTo2dImage_def)
  from zv have "v \<in> snd ` set (Project2dImageTo3dBall geom order image_gray)" by force
  then have "v \<in> insert (uint kPixelIgnoreValue) (uint ` set image_gray)"
    using Project2dImageTo3dBall_values[OF assms] by blast
  then show "p \<in> insert kPixelIgnoreValue (set image_gray)"
    using p by auto
qed

text \<open>The comparison loop, with its two counters started anywhere.\<close>

definition countable_pair :: "8 word \<times> (int \<times> int) \<Rightarrow> bool" where
  "countable_pair pp \<longleftrightarrow>
     fst pp \<noteq> kPixelIgnoreValue \<and> (word_of_int (snd (snd pp)) :: 8 word) \<noteq> kPixelIgnoreValue"

definition matching_pair :: "8 word \<times> (int \<times> int) \<Rightarrow> bool" where
  "matching_pair pp \<longleftrightarrow> countable_pair pp \<and> fst pp = word_of_int (snd (snd pp))"

lemma compare_fold:
  "fold compare_step pairs (s, e) =
     (s + int (length (filter matching_pair pairs)), e + int (length (filter countable_pair pairs)))"
proof (induction pairs arbitrary: s e)
  case Nil
  show ?case by simp
next
  case (Cons pp pairs)
  obtain p1 z v where pp: "pp = (p1, (z, v))" by (cases pp) auto
  have step: "compare_step pp (s, e) =
      (s + (if matching_pair pp then 1 else 0), e + (if countable_pair pp then 1 else 0))"
    by (simp add: pp compare_step_def matching_pair_def countable_pair_def Let_def)
  have "fold compare_step (pp # pairs) (s, e) = fold compare_step pairs (compare_step pp (s, e))"
    by simp
  also have "\<dots> = (s + (if matching_pair pp then 1 else 0) + int (length (filter matching_pair pairs)),
      e + (if countable_pair pp then 1 else 0) + int (length (filter countable_pair pairs)))"
    unfolding step by (rule Cons.IH)
  also have "\<dots> = (s + int (length (filter matching_pair (pp # pairs))),
      e + int (length (filter countable_pair (pp # pairs))))"
    by simp
  finally show ?case .
qed

section \<open>The claims\<close>

subsection \<open>C6: concentric-circle removal\<close>





subsection \<open>C7: single-class non-maximum suppression\<close>

lemma confidence_index_pairs_set:
  "set (confidence_index_pairs confidences ct) =
     {(confidences ! i, i) | i. i < length confidences \<and> ct \<le> confidences ! i}"
  by (auto simp: confidence_index_pairs_def)

lemma confidence_index_pairs_distinct:
  "distinct (map snd (confidence_index_pairs confidences ct))"
proof -
  have "map snd (confidence_index_pairs confidences ct) =
      filter (\<lambda>i. ct \<le> confidences ! i) [0..<length confidences]"
    by (simp add: confidence_index_pairs_def comp_def)
  then show ?thesis by simp
qed

text \<open>
  C7, as the code has it. Whatever order \<^verbatim>\<open>std::sort\<close> gives to pairs of equal
  confidence, \<^verbatim>\<open>SingleClassNMS\<close> returns indices of input boxes whose confidence reaches
  the confidence threshold, each at most once; any two different returned boxes have
  IoU at most the NMS threshold; and every input box whose confidence reaches the
  confidence threshold and that is not returned has IoU above the NMS threshold with a
  returned box whose confidence is \<^emph>\<open>at least as high\<close> (equal confidences occur, so
  "higher" cannot be promised). IoU is \<open>box_iou\<close>, the single-precision value that the
  code compares with the threshold: axis-aligned intersection over sum-minus-intersection
  with the areas, the union and the quotient each rounded to \<^verbatim>\<open>float\<close>, and 0 when the
  union is not positive.
\<close>

theorem nms_invariants:
  assumes len: "length boxes = length confidences"
    and srt: "sorts_descending (confidence_index_pairs confidences conf_threshold)
                (std_sort (confidence_index_pairs confidences conf_threshold))"
  shows "let out = SingleClassNMS std_sort boxes confidences conf_threshold nms_threshold in
         set out \<subseteq> {i. i < length confidences \<and> conf_threshold \<le> confidences ! i} \<and>
         distinct out \<and>
         (\<forall>i\<in>set out. \<forall>j\<in>set out. i \<noteq> j \<longrightarrow> box_iou (boxes ! i) (boxes ! j) \<le> nms_threshold) \<and>
         (\<forall>j<length confidences. conf_threshold \<le> confidences ! j \<and> j \<notin> set out \<longrightarrow>
            (\<exists>i\<in>set out. confidences ! j \<le> confidences ! i \<and>
                          nms_threshold < box_iou (boxes ! i) (boxes ! j)))"
proof -
  let ?pairs = "confidence_index_pairs confidences conf_threshold"
  let ?ps = "std_sort ?pairs"
  let ?out = "SingleClassNMS std_sort boxes confidences conf_threshold nms_threshold"
  let ?idx = "\<lambda>k. snd (?ps ! k)"
  let ?n = "length ?ps"
  have ms: "mset ?ps = mset ?pairs"
    and sw: "sorted_wrt (\<lambda>a b. fst a \<ge> fst b) ?ps"
    using srt by (simp_all add: sorts_descending_def)
  have set_ps: "set ?ps = set ?pairs" using ms by (rule mset_eq_setD)
  have elem: "\<And>k. k < ?n \<Longrightarrow>
      ?idx k < length confidences \<and> fst (?ps ! k) = confidences ! ?idx k \<and>
      conf_threshold \<le> confidences ! ?idx k"
  proof -
    fix k assume "k < ?n"
    then have "?ps ! k \<in> set ?pairs" using set_ps nth_mem by blast
    then show "?idx k < length confidences \<and> fst (?ps ! k) = confidences ! ?idx k \<and>
      conf_threshold \<le> confidences ! ?idx k"
      by (auto simp: confidence_index_pairs_set)
  qed
  have "mset (map snd ?ps) = mset (map snd ?pairs)" using ms by (metis mset_map)
  then have dist: "distinct (map snd ?ps)"
    using confidence_index_pairs_distinct[of confidences conf_threshold]
    by (metis mset_eq_imp_distinct_iff)
  have inj: "\<And>k l. k < ?n \<Longrightarrow> l < ?n \<Longrightarrow> ?idx k = ?idx l \<Longrightarrow> k = l"
  proof -
    fix k l assume kl: "k < ?n" "l < ?n" "?idx k = ?idx l"
    have "(map snd ?ps ! k = map snd ?ps ! l) = (k = l)"
      using kl(1,2) by (intro nth_eq_iff_index_eq[OF dist]) simp_all
    then show "k = l" using kl by simp
  qed
  have mono: "\<And>k l. k < l \<Longrightarrow> l < ?n \<Longrightarrow> fst (?ps ! l) \<le> fst (?ps ! k)"
    using sw by (simp add: sorted_wrt_iff_nth_less)
  obtain flags where fl: "length flags = ?n"
    and gr: "nms_greedy boxes ?ps nms_threshold =
               map ?idx (filter (\<lambda>k. \<not> flags ! k) [0..<?n])"
    and sup: "\<forall>j<?n. flags ! j \<longleftrightarrow>
               (\<exists>k<j. \<not> flags ! k \<and> overlaps boxes ?ps nms_threshold k j)"
    by (rule nms_greedy_final[of ?ps boxes nms_threshold])
  show ?thesis
  proof (cases "?pairs = []")
    case True
    then have out: "?out = []" by (simp add: SingleClassNMS_def)
    have "\<And>j. j < length confidences \<Longrightarrow> \<not> conf_threshold \<le> confidences ! j"
    proof
      fix j assume "j < length confidences" "conf_threshold \<le> confidences ! j"
      then have "(confidences ! j, j) \<in> set ?pairs"
        by (auto simp: confidence_index_pairs_set)
      then show False using True by simp
    qed
    then show ?thesis unfolding Let_def out by simp
  next
    case False
    then have out: "?out = map ?idx (filter (\<lambda>k. \<not> flags ! k) [0..<?n])"
      using gr by (simp add: SingleClassNMS_def Let_def)
    have mem: "\<And>i. i \<in> set ?out \<longleftrightarrow> (\<exists>k<?n. \<not> flags ! k \<and> i = ?idx k)"
      unfolding out by auto
    have p1: "set ?out \<subseteq> {i. i < length confidences \<and> conf_threshold \<le> confidences ! i}"
    proof
      fix i assume "i \<in> set ?out"
      then obtain k where "k < ?n" "i = ?idx k" using mem by blast
      then show "i \<in> {i. i < length confidences \<and> conf_threshold \<le> confidences ! i}"
        using elem[of k] by simp
    qed
    have p2: "distinct ?out"
    proof -
      have "inj_on ?idx (set (filter (\<lambda>k. \<not> flags ! k) [0..<?n]))"
        by (rule inj_onI) (simp add: inj)
      then show ?thesis unfolding out by (simp add: distinct_map)
    qed
    have low: "\<And>k l. k < l \<Longrightarrow> l < ?n \<Longrightarrow> \<not> flags ! k \<Longrightarrow> \<not> flags ! l \<Longrightarrow>
        box_iou (boxes ! ?idx k) (boxes ! ?idx l) \<le> nms_threshold"
    proof -
      fix k l assume a: "k < l" "l < ?n" "\<not> flags ! k" "\<not> flags ! l"
      have "\<not> overlaps boxes ?ps nms_threshold k l" using sup a by blast
      then show "box_iou (boxes ! ?idx k) (boxes ! ?idx l) \<le> nms_threshold"
        by (simp add: overlaps_def)
    qed
    have p3: "\<forall>i\<in>set ?out. \<forall>j\<in>set ?out. i \<noteq> j \<longrightarrow>
        box_iou (boxes ! i) (boxes ! j) \<le> nms_threshold"
    proof (intro ballI impI)
      fix i j assume i: "i \<in> set ?out" and j: "j \<in> set ?out" and ne: "i \<noteq> j"
      obtain k where k: "k < ?n" "\<not> flags ! k" "i = ?idx k" using i mem by blast
      obtain l where l: "l < ?n" "\<not> flags ! l" "j = ?idx l" using j mem by blast
      have "k \<noteq> l" using ne k(3) l(3) by auto
      then consider "k < l" | "l < k" by linarith
      then show "box_iou (boxes ! i) (boxes ! j) \<le> nms_threshold"
      proof cases
        case 1
        then show ?thesis using low[OF 1 l(1) k(2) l(2)] k(3) l(3) by simp
      next
        case 2
        then show ?thesis using low[OF 2 k(1) l(2) k(2)] k(3) l(3) box_iou_sym by simp
      qed
    qed
    have p4: "\<forall>j<length confidences. conf_threshold \<le> confidences ! j \<and> j \<notin> set ?out \<longrightarrow>
        (\<exists>i\<in>set ?out. confidences ! j \<le> confidences ! i \<and>
                       nms_threshold < box_iou (boxes ! i) (boxes ! j))"
    proof (intro allI impI)
      fix j assume jl: "j < length confidences"
        and jc: "conf_threshold \<le> confidences ! j \<and> j \<notin> set ?out"
      have "(confidences ! j, j) \<in> set ?ps"
        using jl jc set_ps by (auto simp: confidence_index_pairs_set)
      then obtain l where l: "l < ?n" "?ps ! l = (confidences ! j, j)"
        by (auto simp: in_set_conv_nth)
      have "flags ! l"
      proof (rule ccontr)
        assume "\<not> flags ! l"
        then have "j \<in> set ?out" using mem l by force
        then show False using jc by simp
      qed
      then obtain k where k: "k < l" "\<not> flags ! k" "overlaps boxes ?ps nms_threshold k l"
        using sup l(1) by blast
      have kn: "k < ?n" using k(1) l(1) by simp
      have a: "?idx k \<in> set ?out" using mem kn k(2) by blast
      have "fst (?ps ! l) \<le> fst (?ps ! k)" by (rule mono[OF k(1) l(1)])
      then have b: "confidences ! j \<le> confidences ! ?idx k" using l(2) elem[OF kn] by simp
      have c: "nms_threshold < box_iou (boxes ! ?idx k) (boxes ! j)"
        using k(3) l(2) by (simp add: overlaps_def)
      show "\<exists>i\<in>set ?out. confidences ! j \<le> confidences ! i \<and>
                       nms_threshold < box_iou (boxes ! i) (boxes ! j)"
        using a b c by blast
    qed
    show ?thesis unfolding Let_def using p1 p2 p3 p4 by blast
  qed
qed

lemma stable_sort_desc_sorts: "sorts_descending pairs (stable_sort_desc pairs)"
proof -
  have "sorted (map (\<lambda>p. - fst p) (sort_key (\<lambda>p. - fst p) pairs))" by (rule sorted_sort_key)
  then have "sorted_wrt (\<lambda>a b. fst b \<le> fst a) (sort_key (\<lambda>p. - fst p) pairs)"
    by (simp add: sorted_wrt_map)
  then show ?thesis by (simp add: sorts_descending_def stable_sort_desc_def)
qed

theorem nms_invariants_witness:
  "SingleClassNMS stable_sort_desc
     [\<lparr>rect_x = 0, rect_y = 0, rect_width = 10, rect_height = 10\<rparr>,
      \<lparr>rect_x = 1, rect_y = 1, rect_width = 10, rect_height = 10\<rparr>,
      \<lparr>rect_x = 20, rect_y = 20, rect_width = 5, rect_height = 5\<rparr>]
     [7 / 8, 3 / 4, 5 / 8] (1 / 2) (1 / 2) = [0, 2] \<and>
   box_iou \<lparr>rect_x = 0, rect_y = 0, rect_width = 10, rect_height = 10\<rparr>
           \<lparr>rect_x = 20, rect_y = 20, rect_width = 5, rect_height = 5\<rparr> \<le> 1 / 2 \<and>
   1 / 2 < box_iou \<lparr>rect_x = 0, rect_y = 0, rect_width = 10, rect_height = 10\<rparr>
                   \<lparr>rect_x = 1, rect_y = 1, rect_width = 10, rect_height = 10\<rparr>"
proof -
  let ?boxes = "[\<lparr>rect_x = 0, rect_y = 0, rect_width = 10, rect_height = 10\<rparr>,
      \<lparr>rect_x = 1, rect_y = 1, rect_width = 10, rect_height = 10\<rparr>,
      \<lparr>rect_x = 20, rect_y = 20, rect_width = 5, rect_height = 5\<rparr>]"
  let ?confs = "[7 / 8, 3 / 4, 5 / 8 :: rat]"
  have out: "SingleClassNMS stable_sort_desc ?boxes ?confs (1 / 2) (1 / 2) = [0, 2]"
    by code_simp
  have len: "length ?boxes = length ?confs" by simp
  have srt: "sorts_descending (confidence_index_pairs ?confs (1 / 2))
      (stable_sort_desc (confidence_index_pairs ?confs (1 / 2)))"
    by (rule stable_sort_desc_sorts)
  note inst = nms_invariants[where std_sort = stable_sort_desc and boxes = ?boxes
      and confidences = ?confs and conf_threshold = "1 / 2" and nms_threshold = "1 / 2",
      OF len srt, unfolded Let_def out]
  from inst have p3: "\<forall>i\<in>set [0, 2]. \<forall>j\<in>set [0, 2]. i \<noteq> j \<longrightarrow>
      box_iou (?boxes ! i) (?boxes ! j) \<le> 1 / 2"
    by blast
  from inst have p4: "\<forall>j<length ?confs. 1 / 2 \<le> ?confs ! j \<and> j \<notin> set [0, 2] \<longrightarrow>
      (\<exists>i\<in>set [0, 2]. ?confs ! j \<le> ?confs ! i \<and> 1 / 2 < box_iou (?boxes ! i) (?boxes ! j))"
    by blast
  have a: "box_iou (?boxes ! 0) (?boxes ! 2) \<le> 1 / 2"
    by (rule p3[rule_format, of 0 2]) simp_all
  have "\<exists>i\<in>set [0, 2::nat]. ?confs ! 1 \<le> ?confs ! i \<and> 1 / 2 < box_iou (?boxes ! i) (?boxes ! 1)"
    by (rule p4[rule_format, of 1]) simp_all
  then have b: "1 / 2 < box_iou (?boxes ! 0) (?boxes ! 1)"
    by simp
  show ?thesis using out a b by simp
qed

text \<open>
  C7 as stated fails in two ways. On ties: of two identical boxes with the same
  confidence one is returned and the other is not, and no returned box has a higher
  confidence than the suppressed one. And on rounding: for two boxes of 17 by 17 pixels
  that are 3 pixels apart and the threshold \<^verbatim>\<open>0.7f\<close>, the quotient \<^verbatim>\<open>238.0f / 340.0f\<close>
  rounds to \<^verbatim>\<open>0.7f\<close>, which is not above the threshold, so both boxes are returned,
  while their intersection over sum-minus-intersection is \<open>7 / 10\<close>, which is above
  \<^verbatim>\<open>0.7f\<close>.
\<close>

theorem nms_higher_confidence_counterexample:
  "SingleClassNMS stable_sort_desc
     [\<lparr>rect_x = 0, rect_y = 0, rect_width = 10, rect_height = 10\<rparr>,
      \<lparr>rect_x = 0, rect_y = 0, rect_width = 10, rect_height = 10\<rparr>]
     [3 / 4, 3 / 4] (1 / 2) (1 / 2) = [0] \<and>
   (1 / 2 :: rat) \<le> [3 / 4, 3 / 4] ! 1 \<and>
   \<not> ([3 / 4, 3 / 4 :: rat] ! 1 < [3 / 4, 3 / 4] ! 0) \<and>
   SingleClassNMS stable_sort_desc
     [\<lparr>rect_x = 0, rect_y = 0, rect_width = 17, rect_height = 17\<rparr>,
      \<lparr>rect_x = 3, rect_y = 0, rect_width = 17, rect_height = 17\<rparr>]
     [3 / 4, 1 / 2] (1 / 4) (round_to_float (7 / 10)) = [0, 1] \<and>
   \<not> exact_iou \<lparr>rect_x = 0, rect_y = 0, rect_width = 17, rect_height = 17\<rparr>
               \<lparr>rect_x = 3, rect_y = 0, rect_width = 17, rect_height = 17\<rparr>
         \<le> round_to_float (7 / 10)"
  by code_simp

subsection \<open>C9: cardinality of a rotation axis\<close>

text \<open>
  C9, as the code has it. For an axis with a positive increment and \<open>start \<le> end\<close> the
  loop terminates, and the number of rotations it visits along the axis as well as the
  corresponding dimension of the candidate index matrix equal
  \<open>\<lfloor>(end - start) / increment\<rfloor> + 1\<close>: the loop stops at the last angle that does not
  exceed \<open>end\<close>, and the size is computed with integer division.
\<close>

theorem axis_cardinality:
  assumes "0 < increment" "start \<le> end'"
  shows "\<exists>angles. axis_loop start end' increment = Some angles \<and>
           int (length angles) = \<lfloor>rat_of_int (end' - start) / rat_of_int increment\<rfloor> + 1 \<and>
           axis_size start end' increment
             = \<lfloor>rat_of_int (end' - start) / rat_of_int increment\<rfloor> + 1"
proof -
  have fl: "\<lfloor>rat_of_int (end' - start) / rat_of_int increment\<rfloor> = (end' - start) div increment"
    by (rule floor_divide_of_int_eq)
  have "0 \<le> (end' - start) div increment"
    using assms by (simp add: pos_imp_zdiv_nonneg_iff)
  then have mx: "max 0 ((end' - start) div increment + 1) = (end' - start) div increment + 1"
    by simp
  from axis_loop_length[OF assms(1), of start end'] obtain angles where
    "axis_loop start end' increment = Some angles"
    "int (length angles) = (end' - start) div increment + 1"
    unfolding mx by blast
  then show ?thesis
    using axis_size_floor[OF assms] fl by simp
qed

theorem axis_cardinality_witness:
  "(0::int) < 6 \<and> (- 42::int) \<le> 42 \<and>
   (\<exists>angles. axis_loop (- 42) 42 6 = Some angles \<and> int (length angles) = 15 \<and>
              axis_size (- 42) 42 6 = 15)"
proof -
  have "\<lfloor>rat_of_int (42 - (- 42)) / rat_of_int 6\<rfloor> + 1 = 15" by simp
  then show ?thesis using axis_cardinality[of 6 "- 42" 42] by simp
qed

text \<open>
  C9 as stated fails whenever the increment does not divide the range. On the default
  coarse Z axis (from \<open>-50\<close> to \<open>60\<close> in steps of \<open>6\<close>) the loop visits 19 angles and the
  matrix dimension is 19, while \<open>\<lceil>(end - start) / increment\<rceil> + 1\<close> is 20.
\<close>

theorem axis_cardinality_counterexample:
  "axis_loop (- 50) 60 6
     = Some [- 50, - 44, - 38, - 32, - 26, - 20, - 14, - 8, - 2, 4, 10, 16, 22, 28, 34, 40,
             46, 52, 58] \<and>
   axis_size (- 50) 60 6 = 19 \<and>
   \<lceil>rat_of_int (60 - (- 50)) / rat_of_int 6\<rceil> + 1 = 20"
proof -
  have a: "axis_loop (- 50) 60 6
     = Some [- 50, - 44, - 38, - 32, - 26, - 20, - 14, - 8, - 2, 4, 10, 16, 22, 28, 34, 40,
             46, 52, 58]"
    by code_simp
  have b: "axis_size (- 50) 60 6 = 19"
    by (simp add: axis_size_def signed_divide_int_def)
  have "\<lceil>110 / (6::rat)\<rceil> = 19"
    by (rule ceiling_unique) simp_all
  then have c: "\<lceil>rat_of_int (60 - (- 50)) / rat_of_int 6\<rceil> + 1 = 20"
    by simp
  show ?thesis using a b c by blast
qed

subsection \<open>C8: purity of the spin sentinel\<close>

text \<open>
  C8. (1) The thresholded Gabor image holds only the values 0 and 255. (2) After
  reflection removal, masking outside the ball, the perspective de-rotation and the
  projection under a candidate rotation, the value channel holds only 0, 255 and the
  sentinel 128, in whatever order \<^verbatim>\<open>forEach\<close> visits the pixels. (3) The comparison counts
  in \<open>examined\<close> exactly the pixel pairs with no sentinel on either side, and in
  \<open>matched\<close> exactly those of them that are equal; a pair with the sentinel on either
  side is in neither count.
\<close>

theorem sentinel_purity:
  assumes "visits_image order0
             (MaskAreaOutsideBall
                (RemoveReflections morph (fst (ApplyTestGaborFilter accumGray binary_threshold)))
                disc kPixelIgnoreValue)"
    and "visits_image order
           (prepared_dimple_image accumGray binary_threshold morph disc geom0 order0)"
  shows "set (fst (ApplyTestGaborFilter accumGray binary_threshold)) \<subseteq> {0, 255} \<and>
         snd ` set (Project2dImageTo3dBall geom order
                      (prepared_dimple_image accumGray binary_threshold morph disc geom0 order0))
           \<subseteq> {0, 255, 128} \<and>
         CompareRotationImage img1 img2 =
           (int (length (filter (\<lambda>(p1, z, v). p1 \<noteq> 128 \<and> (word_of_int v :: 8 word) \<noteq> 128 \<and>
                                              p1 = word_of_int v) (zip img1 img2))),
            int (length (filter (\<lambda>(p1, z, v). p1 \<noteq> 128 \<and> (word_of_int v :: 8 word) \<noteq> 128)
                           (zip img1 img2))))"
proof -
  let ?gabor = "fst (ApplyTestGaborFilter accumGray binary_threshold)"
  let ?refl = "RemoveReflections morph ?gabor"
  let ?masked = "MaskAreaOutsideBall ?refl disc kPixelIgnoreValue"
  let ?prep = "prepared_dimple_image accumGray binary_threshold morph disc geom0 order0"
  have g: "set ?gabor \<subseteq> {0, 255}" by (rule ApplyTestGaborFilter_values)
  have "set ?refl \<subseteq> insert kPixelIgnoreValue (set ?gabor)" by (rule RemoveReflections_values)
  then have r: "set ?refl \<subseteq> {0, 255, 128}" using g by (auto simp: kPixelIgnoreValue_def)
  have "set ?masked \<subseteq> insert kPixelIgnoreValue (set ?refl)" by (rule MaskAreaOutsideBall_values)
  then have m: "set ?masked \<subseteq> {0, 255, 128}" using r by (auto simp: kPixelIgnoreValue_def)
  have prep: "?prep = GetRotatedImage geom0 order0 ?masked"
    by (simp add: prepared_dimple_image_def Let_def)
  have "set ?prep \<subseteq> insert kPixelIgnoreValue (set ?masked)"
    unfolding prep using assms(1) by (rule GetRotatedImage_values)
  then have p: "set ?prep \<subseteq> {0, 255, 128}" using m by (auto simp: kPixelIgnoreValue_def)
  have "snd ` set (Project2dImageTo3dBall geom order ?prep)
      \<subseteq> insert (uint kPixelIgnoreValue) (uint ` set ?prep)"
    by (rule Project2dImageTo3dBall_values[OF assms(2)])
  moreover have "uint ` set ?prep \<subseteq> uint ` {0, 255, 128 :: 8 word}"
    using p by (rule image_mono)
  moreover have "uint kPixelIgnoreValue = 128" "uint ` {0, 255, 128 :: 8 word} = {0, 255, 128}"
    by (simp_all add: kPixelIgnoreValue_def)
  ultimately have v: "snd ` set (Project2dImageTo3dBall geom order ?prep) \<subseteq> {0, 255, 128}"
    by auto
  have m_eq: "matching_pair = (\<lambda>(p1, z, v). p1 \<noteq> 128 \<and> (word_of_int v :: 8 word) \<noteq> 128 \<and>
      p1 = word_of_int v)"
    by (auto simp: fun_eq_iff matching_pair_def countable_pair_def kPixelIgnoreValue_def)
  have c_eq: "countable_pair = (\<lambda>(p1, z, v). p1 \<noteq> 128 \<and> (word_of_int v :: 8 word) \<noteq> 128)"
    by (auto simp: fun_eq_iff countable_pair_def kPixelIgnoreValue_def)
  have "CompareRotationImage img1 img2 =
      (int (length (filter matching_pair (zip img1 img2))),
       int (length (filter countable_pair (zip img1 img2))))"
    using compare_fold[of "zip img1 img2" 0 0]
    by (simp add: CompareRotationImage_def compare_pairs_def)
  then have c: "CompareRotationImage img1 img2 =
      (int (length (filter (\<lambda>(p1, z, v). p1 \<noteq> 128 \<and> (word_of_int v :: 8 word) \<noteq> 128 \<and>
                                         p1 = word_of_int v) (zip img1 img2))),
       int (length (filter (\<lambda>(p1, z, v). p1 \<noteq> 128 \<and> (word_of_int v :: 8 word) \<noteq> 128)
                      (zip img1 img2))))"
    unfolding m_eq c_eq .
  show ?thesis using g v c by blast
qed

text \<open>
  A four-pixel instance: the Gabor response \<open>[0, 200, 120, 255]\<close> thresholded at 110, a
  reflection on the third pixel, the fourth pixel outside the ball, the identity as
  de-rotation and a candidate rotation that shifts the pixels by one place.
\<close>

theorem sentinel_purity_witness:
  "Project2dImageTo3dBall
     (\<lambda>k. \<lparr>unrotated_z = 5, prerotatedPointNotValid = (k = 3),
           rotated_target = (if k < 3 then Some (k + 1, 4) else None)\<rparr>)
     [3, 2, 1, 0]
     (prepared_dimple_image [0, 200, 120, 255] 11 [0, 0, 255, 0] [True, True, True, False]
        (\<lambda>k. \<lparr>unrotated_z = 5, prerotatedPointNotValid = False, rotated_target = Some (k, 5)\<rparr>)
        [0, 1, 2, 3])
   = [(0, 128), (4, 0), (4, 255), (4, 128)] \<and>
   CompareRotationImage [0, 255, 128, 255] [(0, 128), (4, 0), (4, 255), (4, 255)] = (1, 2)"
proof -
  have masked: "MaskAreaOutsideBall
      (RemoveReflections [0, 0, 255, 0] (fst (ApplyTestGaborFilter [0, 200, 120, 255] 11)))
      [True, True, True, False] kPixelIgnoreValue = [0, 255, 128, 128]"
    by code_simp
  have prep: "prepared_dimple_image [0, 200, 120, 255] 11 [0, 0, 255, 0]
      [True, True, True, False] (\<lambda>k::nat. \<lparr>unrotated_z = 5, prerotatedPointNotValid = False,
        rotated_target = Some (k, 5)\<rparr>) [0, 1, 2, 3] = [0, 255, 128, 128]"
    by code_simp
  have h1: "visits_image [0, 1, 2, 3] (MaskAreaOutsideBall
      (RemoveReflections [0, 0, 255, 0] (fst (ApplyTestGaborFilter [0, 200, 120, 255] 11)))
      [True, True, True, False] kPixelIgnoreValue)"
    unfolding masked by code_simp
  have h2: "visits_image [3, 2, 1, 0] (prepared_dimple_image [0, 200, 120, 255] 11
      [0, 0, 255, 0] [True, True, True, False] (\<lambda>k::nat. \<lparr>unrotated_z = 5, prerotatedPointNotValid = False,
        rotated_target = Some (k, 5)\<rparr>) [0, 1, 2, 3])"
    unfolding prep by code_simp
  have proj: "Project2dImageTo3dBall (\<lambda>k::nat. \<lparr>unrotated_z = 5, prerotatedPointNotValid = (k = 3),
        rotated_target = (if k < 3 then Some (k + 1, 4) else None)\<rparr>) [3, 2, 1, 0] [0, 255, 128, 128]
      = [(0, 128), (4, 0), (4, 255), (4, 128)]"
    by code_simp
  have cmp: "(int (length (filter (\<lambda>(p1, z, v). p1 \<noteq> 128 \<and> (word_of_int v :: 8 word) \<noteq> 128 \<and>
                                              p1 = word_of_int v)
                 (zip [0, 255, 128, 255 :: 8 word] [(0::int, 128::int), (4, 0), (4, 255), (4, 255)]))),
            int (length (filter (\<lambda>(p1, z, v). p1 \<noteq> 128 \<and> (word_of_int v :: 8 word) \<noteq> 128)
                 (zip [0, 255, 128, 255 :: 8 word] [(0::int, 128::int), (4, 0), (4, 255), (4, 255)]))))
      = (1, 2)"
    by simp
  from sentinel_purity[OF h1 h2, where ?img1.0 = "[0, 255, 128, 255]"
      and ?img2.0 = "[(0, 128), (4, 0), (4, 255), (4, 255)]"]
  have "CompareRotationImage [0, 255, 128, 255] [(0, 128), (4, 0), (4, 255), (4, 255)] = (1, 2)"
    unfolding cmp by blast
  then show ?thesis using proj prep by simp
qed

subsection \<open>C4: HSV colour mask\<close>

lemma GetColorMaskImage_widening_unused:
  "GetColorMaskImage hsvImage lowerHsv upperHsv wideningAmount =
   GetColorMaskImage hsvImage lowerHsv upperHsv wideningAmount'"
  by (simp add: GetColorMaskImage_def)

text \<open>
  C4 does not hold of the code: the widening argument has no effect, because the body
  widens by the constant \<^verbatim>\<open>kColorMaskWideningAmount = 35\<close> whatever the argument is. For
  the call with the default widening 0 (the value both callers pass), the bounds
  \<open>(50, 50, 50)\<close> and \<open>(60, 60, 60)\<close> and the one-pixel image \<open>(40, 50, 50)\<close>, the mask is 255,
  although the hue 40 lies outside \<open>[50 - 0, 60 + 0]\<close>; and the result is the same for the
  widening 35, for which the pixel does lie within the widened bounds.
\<close>

theorem color_mask_ignores_widening:
  "GetColorMaskImage [(40, 50, 50)] (50, 50, 50) (60, 60, 60) 0 = [255] \<and>
   \<not> in_bounds (40, 50, 50) (50 - 0, 50 - 0, 50 - 0) (60 + 0, min (60 + 0) 255, min (60 + 0) 255) \<and>
   GetColorMaskImage [(40, 50, 50)] (50, 50, 50) (60, 60, 60) 35 = [255] \<and>
   in_bounds (40, 50, 50) (50 - 35, 50 - 35, 50 - 35) (60 + 35, min (60 + 35) 255, min (60 + 35) 255)"
  by code_simp

lemma GetColorMaskImage_float_hue_bound:
  "GetColorMaskImage [(178, 100, 100), (179, 100, 100), (180, 100, 100)]
     (34 + 1 / 2 ^ 30, 100, 100) (100, 100, 100) 0 = [0, 255, 255]"
  by code_simp

end
